theory Spec2Isabelle
  imports Main "HOL-Library.Word" "HOL-Library.AList"
begin

chapter \<open>WorkerRender: cache, revalidation, navigation and middleware\<close>

text \<open>
  A shallow embedding of the offline-first core of WorkerRender:
  \<^item> \<^verbatim>\<open>middleware.ts\<close>: \<^verbatim>\<open>compose\<close> and \<^verbatim>\<open>runMiddleware\<close>;
  \<^item> \<^verbatim>\<open>version.ts\<close>: \<^verbatim>\<open>getAppVersion\<close>, \<^verbatim>\<open>isVersionCompatible\<close>;
  \<^item> \<^verbatim>\<open>cache.ts\<close>: \<^verbatim>\<open>cacheRouteData\<close>, \<^verbatim>\<open>getCachedRouteData\<close>;
  \<^item> \<^verbatim>\<open>sw-strategy.ts\<close>: \<^verbatim>\<open>renderWithCache\<close>, \<^verbatim>\<open>fetchAndCache\<close>,
    \<^verbatim>\<open>revalidateInBackground\<close>, \<^verbatim>\<open>notifyClientsOfUpdate\<close>, \<^verbatim>\<open>generateETag\<close>;
  \<^item> \<^verbatim>\<open>navigation-controller.ts\<close>: the class \<^verbatim>\<open>NavigationController\<close>.

  The code is asynchronous JavaScript on a single thread. Module-level and instance state
  is a record that every operation takes and returns. What the platform decides (whether
  an IndexedDB transaction commits, which side of a \<^verbatim>\<open>Promise.race\<close> settles first, whether
  the browser is online, the clock) is an explicit argument. A promise is a natural number,
  its identity; an operation that is suspended at an \<^verbatim>\<open>await\<close> is an entry of a list in the
  state, and a separate function runs the rest of its body when the awaited value arrives.
\<close>

section \<open>Errors\<close>

datatype error =
    ProtocolError          \<comment> \<open>\<^verbatim>\<open>new Error('next() called multiple times')\<close>\<close>
  | NotAFunction           \<comment> \<open>TypeError of calling \<^verbatim>\<open>middlewares[i]\<close> when it is undefined\<close>
  | LoadFailure string     \<comment> \<open>a loader or an interceptor rejected\<close>
  | LoadTimeout            \<comment> \<open>\<^verbatim>\<open>new Error(`Operation timed out after ${ms}ms`)\<close>\<close>
  | StoreError             \<comment> \<open>an IndexedDB request or transaction failed\<close>
  | RenderError string     \<comment> \<open>the render function threw\<close>

section \<open>middleware.ts\<close>

text \<open>\<^verbatim>\<open>LoaderCtx\<close>, with the two parts of \<^verbatim>\<open>url\<close> that the code reads.\<close>

record LoaderCtx =
  pathname :: string
  search :: string
  reqHeaders :: "(string \<times> string) list"
  params :: "(string \<times> string) list"

text \<open>
  A \<^verbatim>\<open>LoaderMiddleware\<close> is a function \<^verbatim>\<open>(ctx, next) => Promise<T>\<close>. What it does with
  \<^verbatim>\<open>next\<close> is a tree: it returns a value, throws, or calls \<^verbatim>\<open>next()\<close> and goes on with what
  the call gave back (a value, or the error it threw). A tree can call \<^verbatim>\<open>next()\<close> any
  number of times.
\<close>

datatype 'd mw =
    Return 'd
  | Throw error
  | CallNext "(error + 'd) \<Rightarrow> 'd mw"

type_synonym 'd LoaderMiddleware = "LoaderCtx \<Rightarrow> 'd mw"

text \<open>
  A continuation (\<^verbatim>\<open>next\<close>, or the final handler applied to \<^verbatim>\<open>ctx\<close>) runs on a state and
  gives a result and the new state; \<open>None\<close> is a call that never settles.
\<close>

type_synonym ('d, 's) continuation = "'s \<Rightarrow> ((error + 'd) \<times> 's) option"

primrec exec :: "'d mw \<Rightarrow> ('d, 's) continuation \<Rightarrow> ('d, 's) continuation" where
  "exec (Return v) nxt s = Some (Inr v, s)"
| "exec (Throw e) nxt s = Some (Inl e, s)"
| "exec (CallNext k) nxt s =
     (case nxt s of None \<Rightarrow> None | Some (r, s') \<Rightarrow> exec (k r) nxt s')"

text \<open>
  Both executors keep a local variable \<^verbatim>\<open>index\<close> in a closure. \<open>world\<close> is the state
  outside the closure, on which the code after the chain runs.
\<close>

record 'w chain =
  index :: int
  world :: 'w

definition in_chain :: "('d, 'w) continuation \<Rightarrow> ('d, 'w chain) continuation" where
  "in_chain nxt s =
     (case nxt (world s) of None \<Rightarrow> None | Some (r, w) \<Rightarrow> Some (r, s\<lparr>world := w\<rparr>))"

text \<open>
  \<^verbatim>\<open>compose\<close>: \<^verbatim>\<open>dispatch(i)\<close> throws when \<^verbatim>\<open>i <= index\<close>, stores \<^verbatim>\<open>i\<close>, and calls
  \<^verbatim>\<open>next()\<close> at the end of the list or \<^verbatim>\<open>middlewares[i]\<close> with \<^verbatim>\<open>() => dispatch(i + 1)\<close>.
\<close>

function dispatch ::
  "'d LoaderMiddleware list \<Rightarrow> LoaderCtx \<Rightarrow> ('d, 'w) continuation \<Rightarrow> int
     \<Rightarrow> ('d, 'w chain) continuation" where
  "dispatch middlewares ctx nxt i s =
     (if i \<le> index s then Some (Inl ProtocolError, s)
      else let s1 = s\<lparr>index := i\<rparr> in
        if i \<ge> int (length middlewares) then in_chain nxt s1
        else if i < 0 then Some (Inl NotAFunction, s1)
        else exec ((middlewares ! nat i) ctx) (dispatch middlewares ctx nxt (i + 1)) s1)"
  by pat_completeness auto
termination
  by (relation "measure (\<lambda>(ms, ctx, nxt, i, s). nat (int (length ms) - i))") auto

declare dispatch.simps [simp del]

definition compose ::
  "'d LoaderMiddleware list \<Rightarrow> LoaderCtx \<Rightarrow> ('d, 'w) continuation \<Rightarrow> ('d, 'w) continuation" where
  "compose middlewares ctx nxt w =
     (case dispatch middlewares ctx nxt 0 \<lparr>index = - 1, world = w\<rparr> of
        None \<Rightarrow> None
      | Some (r, s) \<Rightarrow> Some (r, world s))"

text \<open>
  \<^verbatim>\<open>runMiddleware\<close>: one function \<^verbatim>\<open>next\<close> shared by all interceptors, reading and
  incrementing \<^verbatim>\<open>index\<close>. The recursion goes through the interceptor's own calls, so it is
  bounded by fuel; \<open>Suc (length middlewares)\<close> is always enough (lemma
  \<open>runMiddleware_returns\<close>).
\<close>

fun next_rm ::
  "nat \<Rightarrow> 'd LoaderMiddleware list \<Rightarrow> LoaderCtx \<Rightarrow> (LoaderCtx \<Rightarrow> ('d, 'w) continuation)
     \<Rightarrow> ('d, 'w chain) continuation" where
  "next_rm 0 middlewares ctx handler s = None"
| "next_rm (Suc fuel) middlewares ctx handler s =
     (if index s \<ge> int (length middlewares) then in_chain (handler ctx) s
      else if index s < 0 then Some (Inl NotAFunction, s\<lparr>index := index s + 1\<rparr>)
      else exec ((middlewares ! nat (index s)) ctx) (next_rm fuel middlewares ctx handler)
             (s\<lparr>index := index s + 1\<rparr>))"

definition runMiddleware ::
  "LoaderCtx \<Rightarrow> 'd LoaderMiddleware list \<Rightarrow> (LoaderCtx \<Rightarrow> ('d, 'w) continuation)
     \<Rightarrow> ('d, 'w) continuation" where
  "runMiddleware ctx middlewares handler w =
     (case next_rm (Suc (length middlewares)) middlewares ctx handler \<lparr>index = 0, world = w\<rparr> of
        None \<Rightarrow> None
      | Some (r, s) \<Rightarrow> Some (r, world s))"

text \<open>
  A loader is a function of the context that may fail. \<open>invoke\<close> calls it and counts the
  call, so that the number of times the terminal loader ran can be read off the state.
\<close>

definition invoke :: "(LoaderCtx \<Rightarrow> error + 'd) \<Rightarrow> LoaderCtx \<Rightarrow> ('d, nat) continuation" where
  "invoke loaderFn ctx n = Some (loaderFn ctx, Suc n)"

text \<open>
  An interceptor that awaits \<^verbatim>\<open>next()\<close> and then returns \<^verbatim>\<open>next()\<close>:
  \<^verbatim>\<open>async (ctx, next) => { await next(); return next(); }\<close>.
\<close>

definition twice :: "'d LoaderMiddleware" where
  "twice ctx =
     CallNext (\<lambda>r1. case r1 of
         Inl e \<Rightarrow> Throw e
       | Inr _ \<Rightarrow> CallNext (\<lambda>r2. case r2 of Inl e \<Rightarrow> Throw e | Inr v \<Rightarrow> Return v))"

section \<open>version.ts\<close>

definition APP_VERSION :: string where
  "APP_VERSION = ''1.0.0''"

text \<open>\<open>build\<close> is the build-time variable \<^verbatim>\<open>__APP_VERSION__\<close>, \<open>None\<close> when it is not defined.\<close>

definition getAppVersion :: "string option \<Rightarrow> string" where
  "getAppVersion build = (case build of Some v \<Rightarrow> v | None \<Rightarrow> APP_VERSION)"

definition isVersionCompatible :: "string option \<Rightarrow> string \<Rightarrow> bool" where
  "isVersionCompatible build cachedVersion \<longleftrightarrow> cachedVersion = getAppVersion build"

definition VERSION_HEADER :: string where
  "VERSION_HEADER = ''X-App-Version''"

section \<open>cache.ts\<close>

record 'd CachedRoute =
  url :: string
  data :: 'd
  version :: string
  timestamp :: nat
  etag :: "string option"

text \<open>
  The object store \<^verbatim>\<open>routes\<close> of the database, with key path \<^verbatim>\<open>url\<close>: one row per key.
\<close>

type_synonym 'd idb = "string \<rightharpoonup> 'd CachedRoute"

text \<open>
  What IndexedDB does with one \<^verbatim>\<open>withDB\<close> call: the transaction completes, or opening the
  database, the request or the transaction fails and the promise rejects.
\<close>

datatype io = Completes | Fails

text \<open>\<open>now\<close> is what \<^verbatim>\<open>Date.now()\<close> returns.\<close>

definition cacheRouteData ::
  "io \<Rightarrow> nat \<Rightarrow> string \<Rightarrow> 'd \<Rightarrow> string \<Rightarrow> string option \<Rightarrow> 'd idb \<Rightarrow> (error + unit) \<times> 'd idb" where
  "cacheRouteData tx now u d v e db =
     (case tx of
        Fails \<Rightarrow> (Inl StoreError, db)
      | Completes \<Rightarrow>
          (Inr (), db(u \<mapsto> \<lparr>url = u, data = d, version = v, timestamp = now, etag = e\<rparr>)))"

definition getCachedRouteData :: "io \<Rightarrow> string \<Rightarrow> 'd idb \<Rightarrow> error + 'd CachedRoute option" where
  "getCachedRouteData tx u db =
     (case tx of Fails \<Rightarrow> Inl StoreError | Completes \<Rightarrow> Inr (db u))"

text \<open>A run of writes, each with its own outcome, clock value and arguments.\<close>

fun writes :: "(io \<times> nat \<times> string \<times> 'd \<times> string \<times> string option) list \<Rightarrow> 'd idb \<Rightarrow> 'd idb" where
  "writes [] db = db"
| "writes ((tx, now, u, d, v, e) # ws) db = writes ws (snd (cacheRouteData tx now u d v e db))"

section \<open>sw-strategy.ts\<close>

subsection \<open>generateETag\<close>

text \<open>
  A JavaScript string is a list of UTF-16 code units. \<open>digest\<close> is
  \<^verbatim>\<open>crypto.subtle.digest('SHA-256', new TextEncoder().encode(data))\<close>: \<open>None\<close> when
  \<^verbatim>\<open>crypto.subtle\<close> is missing, and the function gives \<open>None\<close> when the call throws.
\<close>

type_synonym jsstring = "16 word list"

text \<open>
  \<^verbatim>\<open>Number.prototype.toString(radix)\<close> on a natural number. The code uses the radices 16
  (on bytes), 36 and 10; the test \<open>radix < 2\<close> only makes the recursion total.
\<close>

definition digitChar :: "nat \<Rightarrow> char" where
  "digitChar n = ''0123456789abcdefghijklmnopqrstuvwxyz'' ! n"

function toStringRadix :: "nat \<Rightarrow> nat \<Rightarrow> string" where
  "toStringRadix radix n =
     (if n < radix \<or> radix < 2 then [digitChar n]
      else toStringRadix radix (n div radix) @ [digitChar (n mod radix)])"
  by pat_completeness auto
termination
  by (relation "measure snd") auto

declare toStringRadix.simps [simp del]

definition hexByte :: "8 word \<Rightarrow> string" where
  "hexByte b = [digitChar (unat b div 16), digitChar (unat b mod 16)]"

definition quoted :: "string \<Rightarrow> string" where
  "quoted s = CHR 0x22 # s @ [CHR 0x22]"

definition simpleHash :: "jsstring \<Rightarrow> 32 word" where
  "simpleHash d = fold (\<lambda>c hash. push_bit 5 hash - hash + ucast c) (take 1000 d) 0"

definition generateETag :: "(jsstring \<Rightarrow> 8 word list option) option \<Rightarrow> jsstring \<Rightarrow> string" where
  "generateETag digest d =
     (case (case digest of None \<Rightarrow> None | Some sha256 \<Rightarrow> sha256 d) of
        Some hashBuffer \<Rightarrow> quoted (take 16 (concat (map hexByte hashBuffer)))
      | None \<Rightarrow>
          quoted (toStringRadix 36 (nat \<bar>sint (simpleHash d)\<bar>) @ ''-''
                    @ toStringRadix 10 (length d)))"

subsection \<open>Loading\<close>

record 'd Route =
  path :: string
  loader :: "LoaderCtx \<Rightarrow> error + 'd"
  middleware :: "'d LoaderMiddleware list option"

record Response =
  status :: nat
  body :: string
  headers :: "(string \<times> string) list"

text \<open>What the platform gives one call: the environment of the service worker.\<close>

record 'd env =
  onLine :: bool                                          \<comment> \<open>\<^verbatim>\<open>navigator.onLine\<close>\<close>
  appVersion :: "string option"                           \<comment> \<open>\<^verbatim>\<open>__APP_VERSION__\<close>\<close>
  digest :: "(jsstring \<Rightarrow> 8 word list option) option"     \<comment> \<open>\<^verbatim>\<open>crypto.subtle\<close>\<close>
  stringify :: "'d \<Rightarrow> jsstring"                           \<comment> \<open>\<^verbatim>\<open>JSON.stringify\<close> on a payload\<close>
  clock :: nat                                            \<comment> \<open>\<^verbatim>\<open>Date.now()\<close>\<close>
  windows :: "string list"       \<comment> \<open>path names of \<^verbatim>\<open>self.clients.matchAll({ type: 'window' })\<close>\<close>
  pathnameOf :: "string \<Rightarrow> string option"
    \<comment> \<open>\<^verbatim>\<open>new URL(url, clientUrl.origin).pathname\<close>, \<open>None\<close> when the constructor throws\<close>

text \<open>
  The state of the module: the database, the map \<^verbatim>\<open>pendingRevalidations\<close>, the bodies of
  \<^verbatim>\<open>revalidateInBackground\<close> that wait for their loader, the \<^verbatim>\<open>finally\<close> callbacks that
  are queued, and what has been observed from outside: the load operations started (by
  cache key), the number of calls of a route's loader, the calls of
  \<^verbatim>\<open>notifyClientsOfUpdate\<close> and the messages posted to clients.

  A waiting revalidation keeps the promise of the async body (the value stored in the
  map), the arguments of the call, and \<open>loaded\<close>: what the load that the call started
  gives when it settles, \<open>None\<close> if it never does. A route's loader is a function of the
  context; the server's answer at the time of a call is part of the route passed to it.
\<close>

record 'd revalidation =
  ticket :: nat
  cacheKey :: string
  appliedVersion :: string
  cachedEtag :: "string option"
  loaded :: "(error + 'd) option"

record 'd sw =
  routes :: "'d idb"
  pendingRevalidations :: "string \<rightharpoonup> nat"
  suspended :: "'d revalidation list"
  settled :: "string list"
  loads :: "string list"
  loaderCalls :: nat
  notified :: "(string \<times> 'd) list"
  posted :: "(string \<times> string \<times> 'd) list"
  promises :: nat

definition start :: "'d sw" where
  "start = \<lparr>routes = Map.empty, pendingRevalidations = Map.empty, suspended = [], settled = [],
            loads = [], loaderCalls = 0, notified = [], posted = [], promises = 0\<rparr>"

text \<open>
  The function passed to \<^verbatim>\<open>runLoaderWithTimeout\<close> in both places: through the middleware
  when the route has some, the loader alone otherwise.
\<close>

definition load :: "'d Route \<Rightarrow> LoaderCtx \<Rightarrow> ('d, nat) continuation" where
  "load route ctx =
     (case middleware route of
        Some ms \<Rightarrow>
          if length ms > 0 then runMiddleware ctx ms (invoke (loader route))
          else invoke (loader route) ctx
      | None \<Rightarrow> invoke (loader route) ctx)"

definition startLoad :: "'d Route \<Rightarrow> LoaderCtx \<Rightarrow> string \<Rightarrow> 'd sw \<Rightarrow> (error + 'd) option \<times> 'd sw" where
  "startLoad route ctx k s =
     (case load route ctx (loaderCalls s) of
        None \<Rightarrow> (None, s\<lparr>loads := loads s @ [k]\<rparr>)
      | Some (r, n) \<Rightarrow> (Some r, s\<lparr>loads := loads s @ [k], loaderCalls := n\<rparr>))"

text \<open>
  \<^verbatim>\<open>Promise.race([loader(), timeoutPromise(timeoutMs)])\<close>: the platform decides which side
  settles first; a load that never settles loses.
\<close>

datatype race = LoaderFirst | TimerFirst

definition runLoaderWithTimeout :: "race \<Rightarrow> (error + 'd) option \<Rightarrow> error + 'd" where
  "runLoaderWithTimeout winner r =
     (case r of
        None \<Rightarrow> Inl LoadTimeout
      | Some x \<Rightarrow> (case winner of LoaderFirst \<Rightarrow> x | TimerFirst \<Rightarrow> Inl LoadTimeout))"

subsection \<open>Background revalidation\<close>

text \<open>
  \<^verbatim>\<open>notifyClientsOfUpdate\<close>: the call is recorded, and a message is posted to every window
  whose path name is that of the target URL. The URLs are parsed by the platform; when
  parsing the target throws, the \<^verbatim>\<open>catch\<close> ends the loop before anything is posted.
\<close>

definition notifyClientsOfUpdate :: "'d env \<Rightarrow> string \<Rightarrow> 'd \<Rightarrow> 'd sw \<Rightarrow> 'd sw" where
  "notifyClientsOfUpdate E u d s =
     s\<lparr>notified := notified s @ [(u, d)],
       posted := posted s @
         (case pathnameOf E u of
            None \<Rightarrow> []
          | Some targetPath \<Rightarrow>
              map (\<lambda>c. (c, u, d)) (filter (\<lambda>c. c = targetPath) (windows E)))\<rparr>"

text \<open>
  The synchronous part of \<^verbatim>\<open>revalidateInBackground\<close>: the guard on the map, the body of the
  async function up to its first \<^verbatim>\<open>await\<close> (it returns at once when offline, otherwise starts
  the load and suspends), then \<^verbatim>\<open>pendingRevalidations.set\<close> and \<^verbatim>\<open>promise.finally\<close>. The
  callback of \<^verbatim>\<open>finally\<close> on a promise that is already fulfilled is queued at once.
\<close>

definition revalidateInBackground ::
  "'d env \<Rightarrow> 'd Route \<Rightarrow> LoaderCtx \<Rightarrow> string \<Rightarrow> string \<Rightarrow> string option \<Rightarrow> 'd sw \<Rightarrow> 'd sw" where
  "revalidateInBackground E route ctx k v e s =
     (if pendingRevalidations s k \<noteq> None then s
      else
        let p = promises s;
            s1 = s\<lparr>promises := Suc p\<rparr>;
            s2 = (if \<not> onLine E then s1
                  else
                    let (r, s') = startLoad route ctx k s1
                    in s'\<lparr>suspended := suspended s' @
                         [\<lparr>ticket = p, cacheKey = k, appliedVersion = v, cachedEtag = e,
                           loaded = r\<rparr>]\<rparr>);
            s3 = s2\<lparr>pendingRevalidations := (pendingRevalidations s2)(k \<mapsto> p)\<rparr>
        in if \<not> onLine E then s3\<lparr>settled := settled s3 @ [k]\<rparr> else s3)"

text \<open>
  The rest of the body, run when the race for the revalidation with promise \<open>t\<close> settles:
  the fresh ETag, the comparison, the write and the notification, all inside the
  \<^verbatim>\<open>try\<close>; then the promise settles and its \<^verbatim>\<open>finally\<close> callback is queued.
\<close>

definition revalidationSettles :: "'d env \<Rightarrow> race \<Rightarrow> io \<Rightarrow> nat \<Rightarrow> 'd sw \<Rightarrow> 'd sw" where
  "revalidationSettles E winner tx t s =
     (case find (\<lambda>j. ticket j = t) (suspended s) of
        None \<Rightarrow> s
      | Some j \<Rightarrow>
          let s0 = s\<lparr>suspended := filter (\<lambda>j. ticket j \<noteq> t) (suspended s)\<rparr>;
              s1 = (case runLoaderWithTimeout winner (loaded j) of
                      Inl err \<Rightarrow> s0
                    | Inr freshData \<Rightarrow>
                        let freshEtag = generateETag (digest E) (stringify E freshData) in
                        if Some freshEtag \<noteq> cachedEtag j then
                          (case cacheRouteData tx (clock E) (cacheKey j) freshData
                                  (appliedVersion j) (Some freshEtag) (routes s0) of
                             (Inl err, db) \<Rightarrow> s0
                           | (Inr _, db) \<Rightarrow>
                               notifyClientsOfUpdate E (cacheKey j) freshData (s0\<lparr>routes := db\<rparr>))
                        else s0)
          in s1\<lparr>settled := settled s1 @ [cacheKey j]\<rparr>)"

text \<open>The first queued \<^verbatim>\<open>finally\<close> callback: \<^verbatim>\<open>pendingRevalidations.delete(cacheKey)\<close>.\<close>

definition runCompletion :: "'d sw \<Rightarrow> 'd sw" where
  "runCompletion s =
     (case settled s of
        [] \<Rightarrow> s
      | k # ks \<Rightarrow> s\<lparr>settled := ks, pendingRevalidations := (pendingRevalidations s)(k := None)\<rparr>)"

subsection \<open>renderWithCache\<close>

text \<open>
  One call of \<^verbatim>\<open>renderWithCache\<close> from its start to its response, with the outcome of its
  read (\<open>rd\<close>), of the race of its load (\<open>winner\<close>) and of its write (\<open>tx\<close>). The
  background revalidation it triggers is only started here; it goes on in
  \<open>revalidationSettles\<close>.
\<close>

definition fetchAndCache ::
  "'d env \<Rightarrow> race \<Rightarrow> io \<Rightarrow> 'd Route \<Rightarrow> LoaderCtx \<Rightarrow> string \<Rightarrow> string \<Rightarrow> ('d \<Rightarrow> error + string)
     \<Rightarrow> 'd sw \<Rightarrow> (error + Response) \<times> 'd sw" where
  "fetchAndCache E winner tx route ctx k v renderFn s =
     (let (r, s1) = startLoad route ctx k s in
      case runLoaderWithTimeout winner r of
        Inl err \<Rightarrow> (Inl err, s1)
      | Inr d \<Rightarrow>
          let e = generateETag (digest E) (stringify E d) in
          (case cacheRouteData tx (clock E) k d v (Some e) (routes s1) of
             (Inl err, db) \<Rightarrow> (Inl err, s1)
           | (Inr _, db) \<Rightarrow>
               (case renderFn d of
                  Inl err \<Rightarrow> (Inl err, s1\<lparr>routes := db\<rparr>)
                | Inr html \<Rightarrow>
                    (Inr \<lparr>status = 200, body = html,
                          headers = [(''content-type'', ''text/html; charset=utf-8''),
                                     (''x-cache'', ''MISS''),
                                     (VERSION_HEADER, v),
                                     (''etag'', e)]\<rparr>,
                     s1\<lparr>routes := db\<rparr>))))"

definition serveStale ::
  "'d env \<Rightarrow> 'd Route \<Rightarrow> LoaderCtx \<Rightarrow> string \<Rightarrow> string \<Rightarrow> ('d \<Rightarrow> error + string)
     \<Rightarrow> 'd CachedRoute \<Rightarrow> 'd sw \<Rightarrow> (error + Response) \<times> 'd sw" where
  "serveStale E route ctx k v renderFn cached s =
     (case renderFn (data cached) of
        Inl err \<Rightarrow> (Inl err, s)
      | Inr html \<Rightarrow>
          (Inr \<lparr>status = 200, body = html,
                headers = [(''content-type'', ''text/html; charset=utf-8''),
                           (''x-cache'', ''HIT''),
                           (''x-cache-version'', version cached)]
                          @ (case etag cached of
                               Some e \<Rightarrow> if e \<noteq> [] then [(''etag'', e)] else []
                             | None \<Rightarrow> [])\<rparr>,
           revalidateInBackground E route ctx k v (etag cached) s))"

definition renderWithCache ::
  "'d env \<Rightarrow> io \<Rightarrow> race \<Rightarrow> io \<Rightarrow> 'd Route \<Rightarrow> LoaderCtx \<Rightarrow> ('d \<Rightarrow> error + string)
     \<Rightarrow> 'd sw \<Rightarrow> (error + Response) \<times> 'd sw" where
  "renderWithCache E rd winner tx route ctx renderFn s =
     (let k = pathname ctx @ search ctx;
          v = getAppVersion (appVersion E)
      in case getCachedRouteData rd k (routes s) of
           Inl err \<Rightarrow> (Inl err, s)
         | Inr None \<Rightarrow> fetchAndCache E winner tx route ctx k v renderFn s
         | Inr (Some cached) \<Rightarrow>
             if isVersionCompatible (appVersion E) (version cached)
             then serveStale E route ctx k v renderFn cached s
             else fetchAndCache E winner tx route ctx k v renderFn s)"

subsection \<open>Runs of the service worker\<close>

datatype 'd event =
    Request "'d env" io race io "'d Route" LoaderCtx "'d \<Rightarrow> error + string"
  | Refresh "'d env" "'d Route" LoaderCtx string string "string option"
  | Settles "'d env" race io nat
  | Completion

fun step :: "'d sw \<Rightarrow> 'd event \<Rightarrow> 'd sw" where
  "step s (Request E rd winner tx route ctx renderFn) =
     snd (renderWithCache E rd winner tx route ctx renderFn s)"
| "step s (Refresh E route ctx k v e) = revalidateInBackground E route ctx k v e s"
| "step s (Settles E winner tx t) = revalidationSettles E winner tx t s"
| "step s Completion = runCompletion s"

definition run :: "'d event list \<Rightarrow> 'd sw" where
  "run evs = foldl step start evs"

section \<open>navigation-controller.ts\<close>


datatype navError = AbortError | HttpError string | NetworkError string

record NavigationResult =
  ok :: bool
  html :: "string option"
  error :: "navError option"
  fromCache :: "bool option"

























subsection \<open>Runs of a controller\<close>




section \<open>Notions used in the properties\<close>

text \<open>
  What a run of \<^verbatim>\<open>dispatch\<close> in a chain of \<open>n\<close> interceptors does to the closure's index and
  to the count of loader calls: the index does not go down, and the count goes up by one
  at most, and only when the index passes \<open>n\<close>.
\<close>

definition once :: "nat \<Rightarrow> nat chain \<Rightarrow> nat chain \<Rightarrow> bool" where
  "once n s s' \<longleftrightarrow> index s \<le> index s' \<and> world s \<le> world s' \<and>
     world s' \<le> world s + (if index s < int n \<and> int n \<le> index s' then 1 else 0)"

text \<open>The key of one entry of a run of writes.\<close>

definition writeKey :: "io \<times> nat \<times> string \<times> 'd \<times> string \<times> string option \<Rightarrow> string" where
  "writeKey w = fst (snd (snd w))"

text \<open>
  The invariant of the module state: the revalidations that wait for their loader and the
  queued \<^verbatim>\<open>finally\<close> callbacks are for different keys, and each of them has its entry
  in \<^verbatim>\<open>pendingRevalidations\<close>.
\<close>

definition ticketed :: "'d sw \<Rightarrow> bool" where
  "ticketed s \<longleftrightarrow>
     distinct (map cacheKey (suspended s) @ settled s)
     \<and> list_all (\<lambda>j. pendingRevalidations s (cacheKey j) = Some (ticket j)) (suspended s)
     \<and> list_all (\<lambda>k. pendingRevalidations s k \<noteq> None) (settled s)"


section \<open>Concrete inputs\<close>

text \<open>
  A route with payloads that are numbers, serialised in decimal, whose loader answers 7,
  and a request for \<^verbatim>\<open>/a\<close>. The build defines the version \<^verbatim>\<open>B\<close>; \<^verbatim>\<open>crypto.subtle\<close> is
  missing, so \<^verbatim>\<open>generateETag\<close> takes its fallback. \<open>offlineEnv\<close> is the same environment
  offline.
\<close>

definition utf16 :: "string \<Rightarrow> jsstring" where
  "utf16 s = map (\<lambda>c. of_nat (of_char c)) s"

definition exampleEnv :: "nat env" where
  "exampleEnv = \<lparr>onLine = True, appVersion = Some ''B'', digest = None,
     stringify = (\<lambda>n. utf16 (toStringRadix 10 n)), clock = 1000, windows = [''/a''],
     pathnameOf = (\<lambda>u. Some (takeWhile (\<lambda>c. c \<noteq> CHR ''?'') u))\<rparr>"

definition offlineEnv :: "nat env" where
  "offlineEnv = exampleEnv\<lparr>onLine := False\<rparr>"

definition exampleRoute :: "nat Route" where
  "exampleRoute = \<lparr>path = ''/a'', loader = (\<lambda>_. Inr 7), middleware = None\<rparr>"

definition exampleCtx :: LoaderCtx where
  "exampleCtx = \<lparr>pathname = ''/a'', search = [], reqHeaders = [], params = []\<rparr>"

definition exampleRender :: "nat \<Rightarrow> error + string" where
  "exampleRender n = Inr (toStringRadix 10 n)"

definition exampleRefresh :: "nat event" where
  "exampleRefresh = Refresh exampleEnv exampleRoute exampleCtx ''/a'' ''B'' None"

text \<open>
  Rows for \<^verbatim>\<open>/a\<close>: one of version \<^verbatim>\<open>A\<close>; of the current version, one without ETag and
  with the payload the loader answers, one with another payload and ETag, and one with
  the payload and the ETag that a refresh will compute. \<open>served row\<close> is the state after
  a request for \<^verbatim>\<open>/a\<close> found \<open>row\<close> in the store.
\<close>

definition rowA :: "nat CachedRoute" where
  "rowA = \<lparr>url = ''/a'', data = 7, version = ''A'', timestamp = 10, etag = None\<rparr>"

definition rowB :: "nat CachedRoute" where
  "rowB = \<lparr>url = ''/a'', data = 7, version = ''B'', timestamp = 10, etag = None\<rparr>"

definition rowOld :: "nat CachedRoute" where
  "rowOld = \<lparr>url = ''/a'', data = 6, version = ''B'', timestamp = 10, etag = Some ''old''\<rparr>"

definition rowSame :: "nat CachedRoute" where
  "rowSame = \<lparr>url = ''/a'', data = 7, version = ''B'', timestamp = 10,
     etag = Some (generateETag None (utf16 (toStringRadix 10 7)))\<rparr>"

definition served :: "nat CachedRoute \<Rightarrow> nat sw" where
  "served row = snd (renderWithCache exampleEnv Completes LoaderFirst Completes exampleRoute
     exampleCtx exampleRender (start\<lparr>routes := [''/a'' \<mapsto> row]\<rparr>))"









chapter \<open>Properties\<close>

section \<open>The middleware executors\<close>

lemma exec_rel:
  assumes nxt: "\<And>s r s'. nxt s = Some (r, s') \<Longrightarrow> R s s'"
    and refl: "\<And>s. R s s"
    and trans: "\<And>a b c. R a b \<Longrightarrow> R b c \<Longrightarrow> R a c"
  shows "exec m nxt s = Some (r, s') \<Longrightarrow> R s s'"
proof (induction m arbitrary: s)
  case (Return v)
  then show ?case using refl by simp
next
  case (Throw e)
  then show ?case using refl by simp
next
  case (CallNext k)
  from CallNext.prems obtain r1 s1 where
    a: "nxt s = Some (r1, s1)" and b: "exec (k r1) nxt s1 = Some (r, s')"
    by (auto split: option.splits)
  have "R s s1" using nxt a by blast
  moreover have "R s1 s'" using CallNext.IH b by blast
  ultimately show ?case using trans by blast
qed

lemma exec_total:
  assumes inv: "I s"
    and nxt: "\<And>x. I x \<Longrightarrow> \<exists>r x'. nxt x = Some (r, x') \<and> I x'"
  shows "\<exists>r s'. exec m nxt s = Some (r, s') \<and> I s'"
  using inv
proof (induction m arbitrary: s)
  case (CallNext k)
  from nxt [OF CallNext.prems] obtain r1 s1 where a: "nxt s = Some (r1, s1)" and i: "I s1"
    by blast
  from CallNext.IH [of "k r1" s1] i obtain r s' where "exec (k r1) nxt s1 = Some (r, s')" "I s'"
    by blast
  with a show ?case by simp
qed simp_all

lemma once_refl: "once n s s"
  by (simp add: once_def)

lemma once_trans: "once n a b \<Longrightarrow> once n b c \<Longrightarrow> once n a c"
  by (auto simp: once_def split: if_splits)

lemma dispatch_once:
  "nxt = invoke h ctx \<Longrightarrow> i \<le> int (length ms) \<Longrightarrow> dispatch ms ctx nxt i s = Some (r, s')
     \<Longrightarrow> once (length ms) s s'"
proof (induction ms ctx nxt i s arbitrary: r s' rule: dispatch.induct)
  case (1 ms ctx nxt i s)
  note nxt = \<open>nxt = invoke h ctx\<close>
  show ?case
  proof (cases "i \<le> index s")
    case True
    with "1.prems" show ?thesis by (simp add: dispatch.simps once_refl)
  next
    case False
    note nle = this
    show ?thesis
    proof (cases "int (length ms) \<le> i")
      case True
      with nle "1.prems" show ?thesis
        by (auto simp: dispatch.simps in_chain_def invoke_def once_def)
    next
      case False
      note lt = this
      let ?s1 = "s\<lparr>index := i\<rparr>"
      have s1: "once (length ms) s ?s1" using nle lt by (simp add: once_def)
      show ?thesis
      proof (cases "i < 0")
        case True
        with nle lt "1.prems" s1 show ?thesis by (simp add: dispatch.simps)
      next
        case False
        from nle lt False "1.prems" have
          e: "exec ((ms ! nat i) ctx) (dispatch ms ctx nxt (i + 1)) ?s1 = Some (r, s')"
          by (simp add: dispatch.simps)
        have step: "\<And>x r x'. dispatch ms ctx nxt (i + 1) x = Some (r, x')
                      \<Longrightarrow> once (length ms) x x'"
          using "1.IH" [OF nle refl lt False nxt] lt by simp
        have "once (length ms) ?s1 s'"
          by (rule exec_rel [where R = "once (length ms)", OF step once_refl once_trans e])
        with s1 show ?thesis by (rule once_trans)
      qed
    qed
  qed
qed

lemma dispatch_index:
  "dispatch ms ctx nxt i s = Some (r, s') \<Longrightarrow> i \<le> index s' \<and> index s \<le> index s'"
proof (induction ms ctx nxt i s arbitrary: r s' rule: dispatch.induct)
  case (1 ms ctx nxt i s)
  show ?case
  proof (cases "i \<le> index s")
    case True
    with "1.prems" show ?thesis by (simp add: dispatch.simps)
  next
    case False
    note nle = this
    show ?thesis
    proof (cases "int (length ms) \<le> i")
      case True
      with nle "1.prems" show ?thesis
        by (auto simp: dispatch.simps in_chain_def split: option.splits)
    next
      case False
      note lt = this
      let ?s1 = "s\<lparr>index := i\<rparr>"
      show ?thesis
      proof (cases "i < 0")
        case True
        with nle lt "1.prems" show ?thesis by (auto simp: dispatch.simps)
      next
        case False
        from nle lt False "1.prems" have
          e: "exec ((ms ! nat i) ctx) (dispatch ms ctx nxt (i + 1)) ?s1 = Some (r, s')"
          by (simp add: dispatch.simps)
        have step: "\<And>x r x'. dispatch ms ctx nxt (i + 1) x = Some (r, x')
                      \<Longrightarrow> index x \<le> index x'"
          using "1.IH" [OF nle refl lt False] by blast
        have "index ?s1 \<le> index s'"
          by (rule exec_rel [where R = "\<lambda>a b. index a \<le> index b", OF step _ _ e]) auto
        with nle show ?thesis by simp
      qed
    qed
  qed
qed

lemma dispatch_total:
  assumes tot: "\<And>w. \<exists>r w'. nxt w = Some (r, w')"
  shows "\<exists>r s'. dispatch ms ctx nxt i s = Some (r, s')"
  using tot
proof (induction ms ctx nxt i s rule: dispatch.induct)
  case (1 ms ctx nxt i s)
  show ?case
  proof (cases "i \<le> index s")
    case True
    then show ?thesis by (simp add: dispatch.simps)
  next
    case False
    note nle = this
    show ?thesis
    proof (cases "int (length ms) \<le> i")
      case True
      from "1.prems" [of "world (s\<lparr>index := i\<rparr>)"] nle True show ?thesis
        by (auto simp: dispatch.simps in_chain_def)
    next
      case False
      note lt = this
      show ?thesis
      proof (cases "i < 0")
        case True
        with nle lt show ?thesis by (simp add: dispatch.simps)
      next
        case False
        have "\<exists>r s'. exec ((ms ! nat i) ctx) (dispatch ms ctx nxt (i + 1)) (s\<lparr>index := i\<rparr>)
                 = Some (r, s') \<and> True"
          by (rule exec_total [where I = "\<lambda>_. True"])
             (use "1.IH" [OF nle refl lt False "1.prems"] in auto)
        with nle lt False show ?thesis by (simp add: dispatch.simps)
      qed
    qed
  qed
qed

text \<open>
  \<^verbatim>\<open>compose\<close> keeps the contract of the continuation: a chain around a loader always
  returns, the loader runs at most once in it, and calling a continuation again after it
  has returned gives the protocol error and changes nothing.
\<close>

lemma compose_returns:
  "\<exists>r n'. compose ms ctx (invoke h ctx) n = Some (r, n')"
proof -
  have "\<And>w. \<exists>r w'. invoke h ctx w = Some (r, w')" by (simp add: invoke_def)
  from dispatch_total [of "invoke h ctx" ms ctx 0 "\<lparr>index = -1, world = n\<rparr>", OF this]
  show ?thesis by (auto simp: compose_def)
qed

lemma compose_terminal_once:
  "compose ms ctx (invoke h ctx) n = Some (r, n') \<Longrightarrow> n' \<le> Suc n"
proof -
  assume "compose ms ctx (invoke h ctx) n = Some (r, n')"
  then obtain s' where d: "dispatch ms ctx (invoke h ctx) 0 \<lparr>index = -1, world = n\<rparr> = Some (r, s')"
    and w: "world s' = n'"
    by (auto simp: compose_def split: option.splits)
  from dispatch_once [OF refl _ d] have "once (length ms) \<lparr>index = -1, world = n\<rparr> s'" by simp
  with w show ?thesis by (auto simp: once_def split: if_splits)
qed

lemma dispatch_second_call:
  "dispatch ms ctx nxt i s = Some (r, s')
     \<Longrightarrow> dispatch ms ctx nxt i s' = Some (Inl ProtocolError, s')"
  using dispatch_index [of ms ctx nxt i s r s'] by (simp add: dispatch.simps)

lemma compose_double_next:
  "compose [twice] ctx (invoke (\<lambda>_. Inr v) ctx) 0 = Some (Inl ProtocolError, 1)"
  by (simp add: compose_def dispatch.simps twice_def invoke_def in_chain_def)

text \<open>\<^verbatim>\<open>runMiddleware\<close> always returns: the fuel it is given is enough.\<close>

lemma next_rm_total:
  assumes tot: "\<And>w. \<exists>r w'. handler ctx w = Some (r, w')"
  shows "nat (int (length ms) - index (s :: 'w chain)) < fuel
     \<Longrightarrow> \<exists>r s'. next_rm fuel ms ctx handler s = Some (r, s') \<and> index s \<le> index s'"
proof (induction fuel arbitrary: s)
  case 0
  then show ?case by simp
next
  case (Suc fuel)
  show ?case
  proof (cases "int (length ms) \<le> index s")
    case True
    with tot [of "world s"] show ?thesis by (auto simp: in_chain_def)
  next
    case False
    note lt = this
    let ?s1 = "s\<lparr>index := index s + 1\<rparr>"
    show ?thesis
    proof (cases "index s < 0")
      case True
      with lt show ?thesis by simp
    next
      case False
      have "\<exists>r s'. exec ((ms ! nat (index s)) ctx) (next_rm fuel ms ctx handler) ?s1 = Some (r, s')
              \<and> index ?s1 \<le> index s'"
      proof (rule exec_total [where I = "\<lambda>x. index ?s1 \<le> index x"])
        show "index ?s1 \<le> index ?s1" by simp
      next
        fix x :: "'w chain"
        assume x: "index ?s1 \<le> index x"
        with Suc.prems lt have "nat (int (length ms) - index x) < fuel" by simp
        from Suc.IH [OF this] x
        show "\<exists>r x'. next_rm fuel ms ctx handler x = Some (r, x') \<and> index ?s1 \<le> index x'"
          by force
      qed
      with lt False show ?thesis by force
    qed
  qed
qed

lemma runMiddleware_returns:
  assumes "\<And>w. \<exists>r w'. handler ctx w = Some (r, w')"
  shows "\<exists>r w'. runMiddleware ctx ms handler w = Some (r, w')"
proof -
  from next_rm_total [of handler ctx ms "\<lparr>index = 0, world = w\<rparr>" "Suc (length ms)", OF assms]
  show ?thesis by (auto simp: runMiddleware_def)
qed

lemma load_returns: "\<exists>r n'. load route ctx n = Some (r, n')"
proof -
  have "\<And>w. \<exists>r w'. invoke (loader route) ctx w = Some (r, w')" by (simp add: invoke_def)
  from runMiddleware_returns [of "invoke (loader route)" ctx, OF this]
  show ?thesis by (auto simp: load_def invoke_def split: option.splits)
qed

text \<open>
  C1. The claim: with either executor, an interceptor that calls \<^verbatim>\<open>next()\<close> twice gets a
  protocol error and the terminal loader does not run a second time. \<^verbatim>\<open>runMiddleware\<close>
  does not do this: for the one-interceptor chain \<open>[twice]\<close> it runs the loader twice and
  returns the loader's result, with no error.
\<close>

theorem runMiddleware_double_next:
  "runMiddleware ctx [twice] (invoke (\<lambda>_. Inr v)) 0 = Some (Inr v, 2)"
  by (simp add: runMiddleware_def twice_def invoke_def in_chain_def)

section \<open>The cache\<close>

lemma writes_other:
  "\<forall>w \<in> set ws. writeKey w \<noteq> k \<Longrightarrow> writes ws db k = db k"
proof (induction ws arbitrary: db)
  case Nil
  then show ?case by simp
next
  case (Cons w ws)
  obtain tx now u d v e where w: "w = (tx, now, u, d, v, e)" by (cases w)
  from Cons.prems w have "u \<noteq> k" by (simp add: writeKey_def)
  then have "snd (cacheRouteData tx now u d v e db) k = db k"
    by (cases tx) (simp_all add: cacheRouteData_def)
  with Cons w show ?case by simp
qed

text \<open>
  C6. After \<^verbatim>\<open>cacheRouteData(key, value, V, F)\<close> has completed, and after any writes to other
  keys, \<^verbatim>\<open>getCachedRouteData(key)\<close> returns the row with the stored value, the version
  \<open>V\<close> and the ETag \<open>F\<close>.
\<close>

theorem cache_round_trip:
  assumes "\<forall>w \<in> set ws. writeKey w \<noteq> k"
  shows "fst (cacheRouteData Completes now k d V F db) = Inr ()
     \<and> getCachedRouteData Completes k
          (writes ws (snd (cacheRouteData Completes now k d V F db)))
        = Inr (Some \<lparr>url = k, data = d, version = V, timestamp = now, etag = F\<rparr>)"
  using writes_other [OF assms]
  by (simp add: getCachedRouteData_def cacheRouteData_def)

theorem cache_round_trip_witness:
  "writeKey (Completes, 5, ''/b'', 1 :: nat, ''B'', None) \<noteq> ''/a''
   \<and> getCachedRouteData Completes ''/a''
        (writes [(Completes, 5, ''/b'', 1, ''B'', None)]
           (snd (cacheRouteData Completes 3 ''/a'' 7 ''A'' (Some ''x'') Map.empty)))
      = Inr (Some \<lparr>url = ''/a'', data = 7 :: nat, version = ''A'', timestamp = 3,
                    etag = Some ''x''\<rparr>)"
  using cache_round_trip [of "[(Completes, 5, ''/b'', 1 :: nat, ''B'', None)]" "''/a''"
      3 7 "''A''" "Some ''x''" Map.empty]
  by (simp add: writeKey_def)

section \<open>The render path\<close>

lemma startLoad_log: "loads (snd (startLoad route ctx k s)) = loads s @ [k]"
  by (simp add: startLoad_def split: option.splits prod.splits)

lemma startLoad_frame:
  "pendingRevalidations (snd (startLoad route ctx k s)) = pendingRevalidations s"
  "suspended (snd (startLoad route ctx k s)) = suspended s"
  "settled (snd (startLoad route ctx k s)) = settled s"
  "routes (snd (startLoad route ctx k s)) = routes s"
  "notified (snd (startLoad route ctx k s)) = notified s"
  "promises (snd (startLoad route ctx k s)) = promises s"
  by (simp_all add: startLoad_def split: option.splits prod.splits)

lemma fetchAndCache_log:
  "loads (snd (fetchAndCache E winner tx route ctx k v renderFn s)) = loads s @ [k]"
  using startLoad_log [of route ctx k s]
  by (auto simp: fetchAndCache_def Let_def split: prod.splits sum.splits)

lemma fetchAndCache_frame:
  "pendingRevalidations (snd (fetchAndCache E winner tx route ctx k v renderFn s))
     = pendingRevalidations s"
  "suspended (snd (fetchAndCache E winner tx route ctx k v renderFn s)) = suspended s"
  "settled (snd (fetchAndCache E winner tx route ctx k v renderFn s)) = settled s"
  using startLoad_frame [of route ctx k s]
  by (auto simp: fetchAndCache_def Let_def split: prod.splits sum.splits)

lemma fetchAndCache_miss:
  "fst (fetchAndCache E winner tx route ctx k v renderFn s) = Inr resp
     \<Longrightarrow> map_of (headers resp) ''x-cache'' = Some ''MISS''"
  by (auto simp: fetchAndCache_def Let_def split: prod.splits sum.splits)

text \<open>
  C7. A row stored under a version that is not the current one is still returned by
  \<^verbatim>\<open>getCachedRouteData\<close>, and \<^verbatim>\<open>renderWithCache\<close> treats it as absent: it runs
  \<^verbatim>\<open>fetchAndCache\<close>, which starts a load for the key, starts no background revalidation,
  and answers (when it answers) with \<^verbatim>\<open>x-cache: MISS\<close>.
\<close>

theorem version_mismatch_is_miss:
  assumes "routes s (pathname ctx @ search ctx) = Some row"
    and "version row \<noteq> getAppVersion (appVersion E)"
  shows "getCachedRouteData Completes (pathname ctx @ search ctx) (routes s) = Inr (Some row)
     \<and> renderWithCache E Completes winner tx route ctx renderFn s
         = fetchAndCache E winner tx route ctx (pathname ctx @ search ctx)
             (getAppVersion (appVersion E)) renderFn s
     \<and> loads (snd (renderWithCache E Completes winner tx route ctx renderFn s))
         = loads s @ [pathname ctx @ search ctx]
     \<and> pendingRevalidations (snd (renderWithCache E Completes winner tx route ctx renderFn s))
         = pendingRevalidations s
     \<and> suspended (snd (renderWithCache E Completes winner tx route ctx renderFn s))
         = suspended s
     \<and> (\<forall>resp. fst (renderWithCache E Completes winner tx route ctx renderFn s) = Inr resp
           \<longrightarrow> map_of (headers resp) ''x-cache'' = Some ''MISS'')"
proof -
  have eq: "renderWithCache E Completes winner tx route ctx renderFn s
         = fetchAndCache E winner tx route ctx (pathname ctx @ search ctx)
             (getAppVersion (appVersion E)) renderFn s"
    using assms
    by (simp add: renderWithCache_def getCachedRouteData_def isVersionCompatible_def)
  show ?thesis
    unfolding eq
    using assms(1) fetchAndCache_miss [of E winner tx route ctx _ _ renderFn s]
    by (simp add: getCachedRouteData_def fetchAndCache_log fetchAndCache_frame)
qed

theorem version_mismatch_is_miss_witness:
  "routes (start\<lparr>routes := [''/a'' \<mapsto> rowA]\<rparr>) (pathname exampleCtx @ search exampleCtx) = Some rowA
   \<and> version rowA \<noteq> getAppVersion (appVersion exampleEnv)
   \<and> getCachedRouteData Completes ''/a'' (routes (start\<lparr>routes := [''/a'' \<mapsto> rowA]\<rparr>))
       = Inr (Some rowA)
   \<and> loads (snd (renderWithCache exampleEnv Completes LoaderFirst Completes exampleRoute
        exampleCtx exampleRender (start\<lparr>routes := [''/a'' \<mapsto> rowA]\<rparr>))) = [''/a'']
   \<and> loaderCalls (snd (renderWithCache exampleEnv Completes LoaderFirst Completes exampleRoute
        exampleCtx exampleRender (start\<lparr>routes := [''/a'' \<mapsto> rowA]\<rparr>))) = 1
   \<and> (case fst (renderWithCache exampleEnv Completes LoaderFirst Completes exampleRoute
                exampleCtx exampleRender (start\<lparr>routes := [''/a'' \<mapsto> rowA]\<rparr>)) of
         Inr resp \<Rightarrow> map_of (headers resp) ''x-cache''
       | Inl _ \<Rightarrow> None) = Some ''MISS''"
proof -
  have a: "routes (start\<lparr>routes := [''/a'' \<mapsto> rowA]\<rparr>) (pathname exampleCtx @ search exampleCtx)
             = Some rowA"
    by (simp add: exampleCtx_def)
  have b: "version rowA \<noteq> getAppVersion (appVersion exampleEnv)"
    by (simp add: rowA_def exampleEnv_def getAppVersion_def)
  from version_mismatch_is_miss [OF a b, of LoaderFirst Completes exampleRoute exampleRender]
  show ?thesis
    using a b
    by (simp add: exampleCtx_def start_def fetchAndCache_def startLoad_def load_def
        exampleRoute_def invoke_def runLoaderWithTimeout_def cacheRouteData_def
        exampleRender_def Let_def)
qed

section \<open>Background revalidation\<close>

lemma revalidate_noop:
  "pendingRevalidations s k \<noteq> None \<Longrightarrow> revalidateInBackground E route ctx k v e s = s"
  by (simp add: revalidateInBackground_def)

lemma revalidate_offline:
  assumes "\<not> onLine E" and "pendingRevalidations s k = None"
  shows "revalidateInBackground E route ctx k v e s
     = s\<lparr>promises := Suc (promises s),
         pendingRevalidations := (pendingRevalidations s)(k \<mapsto> promises s),
         settled := settled s @ [k]\<rparr>"
  using assms by (simp add: revalidateInBackground_def Let_def)

lemma revalidate_online:
  assumes "onLine E" and "pendingRevalidations s k = None"
  shows "revalidateInBackground E route ctx k v e s
     = (snd (startLoad route ctx k s))\<lparr>promises := Suc (promises s),
         suspended := suspended s @
           [\<lparr>ticket = promises s, cacheKey = k, appliedVersion = v, cachedEtag = e,
             loaded = fst (startLoad route ctx k s)\<rparr>],
         pendingRevalidations := (pendingRevalidations s)(k \<mapsto> promises s)\<rparr>"
  using assms
  by (simp add: revalidateInBackground_def Let_def startLoad_def split: option.splits prod.splits)

lemma ticketed_start: "ticketed start"
  by (simp add: ticketed_def start_def)

lemma ticketed_revalidate:
  assumes "ticketed s"
  shows "ticketed (revalidateInBackground E route ctx k v e s)"
proof (cases "pendingRevalidations s k = None")
  case False
  with assms show ?thesis by (simp add: revalidate_noop)
next
  case True
  from assms True have notin: "k \<notin> set (map cacheKey (suspended s))" "k \<notin> set (settled s)"
    by (auto simp: ticketed_def list_all_iff)
  have keep: "list_all (\<lambda>j. ((pendingRevalidations s)(k \<mapsto> p)) (cacheKey j) = Some (ticket j))
                (suspended s)"
       "list_all (\<lambda>k'. ((pendingRevalidations s)(k \<mapsto> p)) k' \<noteq> None) (settled s)" for p
    using assms notin by (auto simp: ticketed_def list_all_iff)
  show ?thesis
  proof (cases "onLine E")
    case True
    with \<open>pendingRevalidations s k = None\<close> assms notin keep show ?thesis
      by (simp add: revalidate_online ticketed_def startLoad_frame)
  next
    case False
    with \<open>pendingRevalidations s k = None\<close> assms notin keep show ?thesis
      by (simp add: revalidate_offline ticketed_def)
  qed
qed

lemma settles_shape:
  assumes "find (\<lambda>j. ticket j = t) (suspended s) = Some j"
  shows "suspended (revalidationSettles E winner tx t s)
           = filter (\<lambda>j. ticket j \<noteq> t) (suspended s)"
    and "settled (revalidationSettles E winner tx t s) = settled s @ [cacheKey j]"
    and "pendingRevalidations (revalidationSettles E winner tx t s) = pendingRevalidations s"
    and "loads (revalidationSettles E winner tx t s) = loads s"
    and "loaderCalls (revalidationSettles E winner tx t s) = loaderCalls s"
  using assms
  by (auto simp: revalidationSettles_def Let_def notifyClientsOfUpdate_def cacheRouteData_def
      split: sum.splits prod.splits io.splits)

lemma ticketed_settles:
  assumes "ticketed s"
  shows "ticketed (revalidationSettles E winner tx t s)"
proof (cases "find (\<lambda>j. ticket j = t) (suspended s)")
  case None
  with assms show ?thesis by (simp add: revalidationSettles_def)
next
  case (Some j)
  then have j: "j \<in> set (suspended s)" "ticket j = t"
    by (auto simp: find_Some_iff)
  from assms have d: "distinct (map cacheKey (suspended s))"
    and ds: "distinct (settled s)"
    and disj: "set (map cacheKey (suspended s)) \<inter> set (settled s) = {}"
    by (auto simp: ticketed_def)
  from d have inj: "inj_on cacheKey (set (suspended s))" by (simp add: distinct_map)
  have other: "cacheKey j \<notin> cacheKey ` {x \<in> set (suspended s). ticket x \<noteq> t}"
  proof
    assume "cacheKey j \<in> cacheKey ` {x \<in> set (suspended s). ticket x \<noteq> t}"
    then obtain x where x: "x \<in> set (suspended s)" "ticket x \<noteq> t" "cacheKey x = cacheKey j"
      by auto
    with inj j have "x = j" by (auto dest: inj_onD)
    with x j show False by simp
  qed
  have d': "distinct (map cacheKey (filter (\<lambda>j. ticket j \<noteq> t) (suspended s)))"
    using d by (simp add: distinct_map_filter)
  from assms j have pj: "pendingRevalidations s (cacheKey j) \<noteq> None"
    by (auto simp: ticketed_def list_all_iff)
  show ?thesis
    using assms d' ds disj other j pj
    by (auto simp: ticketed_def settles_shape [OF Some] list_all_iff)
qed

lemma ticketed_completion:
  assumes "ticketed s"
  shows "ticketed (runCompletion s)"
proof (cases "settled s")
  case Nil
  with assms show ?thesis by (simp add: runCompletion_def)
next
  case (Cons k ks)
  with assms show ?thesis
    by (auto simp: ticketed_def runCompletion_def list_all_iff)
qed

lemma serveStale_state:
  "snd (serveStale E route ctx k v renderFn cached s) = s
   \<or> snd (serveStale E route ctx k v renderFn cached s)
        = revalidateInBackground E route ctx k v (etag cached) s"
  by (simp add: serveStale_def split: sum.splits)

lemma ticketed_fetchAndCache:
  assumes "ticketed s"
  shows "ticketed (snd (fetchAndCache E winner tx route ctx k v renderFn s))"
  using assms by (simp add: ticketed_def fetchAndCache_frame)

lemma ticketed_render:
  assumes "ticketed s"
  shows "ticketed (snd (renderWithCache E rd winner tx route ctx renderFn s))"
proof -
  have "ticketed (snd (serveStale E route ctx k v renderFn cached s))" for k v cached
    using serveStale_state [of E route ctx k v renderFn cached s] assms
    by (auto simp: ticketed_revalidate)
  with assms show ?thesis
    by (auto simp: renderWithCache_def Let_def ticketed_fetchAndCache
        split: sum.splits option.splits)
qed

lemma ticketed_step: "ticketed s \<Longrightarrow> ticketed (step s ev)"
  by (cases ev) (simp_all add: ticketed_render ticketed_revalidate ticketed_settles
      ticketed_completion)

lemma ticketed_foldl: "ticketed s \<Longrightarrow> ticketed (foldl step s evs)"
  by (induction evs arbitrary: s) (simp_all add: ticketed_step)

lemma ticketed_run: "ticketed (run evs)"
  by (simp add: run_def ticketed_foldl ticketed_start)

lemma distinct_count:
  "distinct (map f xs) \<Longrightarrow> length (filter (\<lambda>x. f x = k) xs) \<le> 1"
proof (induction xs)
  case Nil
  then show ?case by simp
next
  case (Cons x xs)
  show ?case
  proof (cases "f x = k")
    case True
    with Cons.prems have "filter (\<lambda>x. f x = k) xs = []"
      by (auto simp: filter_empty_conv image_iff)
    with True show ?thesis by simp
  next
    case False
    with Cons show ?thesis by simp
  qed
qed

text \<open>
  C2. In every state the service worker reaches, at most one background revalidation per
  key waits for its loader, and each one has its ticket in the map; and in any state, a
  call of \<^verbatim>\<open>revalidateInBackground\<close> for a key that has a ticket changes nothing: no load
  starts and no ticket is registered. The runs are all sequences of requests, direct calls
  of \<^verbatim>\<open>revalidateInBackground\<close> with any arguments, settlements and completion
  callbacks: the map and the waiting revalidations change in no other way, whatever the
  order in which the asynchronous parts run.
\<close>

theorem single_revalidation_per_key:
  "length (filter (\<lambda>j. cacheKey j = k) (suspended (run evs))) \<le> 1
   \<and> list_all (\<lambda>j. pendingRevalidations (run evs) (cacheKey j) = Some (ticket j))
        (suspended (run evs))
   \<and> (pendingRevalidations s k \<noteq> None
        \<longrightarrow> revalidateInBackground E route ctx k v e s = s)"
proof -
  have "distinct (map cacheKey (suspended (run evs)))"
    using ticketed_run [of evs] by (simp add: ticketed_def)
  then have "length (filter (\<lambda>j. cacheKey j = k) (suspended (run evs))) \<le> 1"
    by (rule distinct_count)
  moreover have "list_all (\<lambda>j. pendingRevalidations (run evs) (cacheKey j) = Some (ticket j))
        (suspended (run evs))"
    using ticketed_run [of evs] by (simp add: ticketed_def)
  ultimately show ?thesis by (simp add: revalidate_noop)
qed

theorem single_revalidation_per_key_witness:
  "pendingRevalidations (run [exampleRefresh]) ''/a'' \<noteq> None
   \<and> revalidateInBackground exampleEnv exampleRoute exampleCtx ''/a'' ''B'' None
        (run [exampleRefresh]) = run [exampleRefresh]
   \<and> length (filter (\<lambda>j. cacheKey j = ''/a'') (suspended (run [exampleRefresh, exampleRefresh])))
        = 1
   \<and> loads (run [exampleRefresh, exampleRefresh]) = [''/a'']"
proof -
  have p: "pendingRevalidations (run [exampleRefresh]) ''/a'' \<noteq> None"
    by (simp add: run_def exampleRefresh_def start_def revalidateInBackground_def Let_def
        exampleEnv_def startLoad_def load_def exampleRoute_def invoke_def)
  have two: "run [exampleRefresh, exampleRefresh] = run [exampleRefresh]"
    using p by (simp add: run_def exampleRefresh_def revalidate_noop)
  have one: "length (filter (\<lambda>j. cacheKey j = ''/a'') (suspended (run [exampleRefresh]))) = 1"
    "loads (run [exampleRefresh]) = [''/a'']"
    by (simp_all add: run_def exampleRefresh_def start_def revalidateInBackground_def Let_def
        exampleEnv_def startLoad_def load_def exampleRoute_def invoke_def)
  from single_revalidation_per_key [of "''/a''" "[exampleRefresh, exampleRefresh]"
      "run [exampleRefresh]" exampleEnv exampleRoute exampleCtx "''B''" None]
  show ?thesis using p two one by simp
qed

lemma completions_drain:
  "pendingRevalidations ((runCompletion ^^ length (settled s)) s) k
     = (if k \<in> set (settled s) then None else pendingRevalidations s k)"
proof (induction "settled s" arbitrary: s)
  case Nil
  then show ?case by simp
next
  case (Cons k' ks)
  from Cons.hyps(2) [symmetric] have st: "settled (runCompletion s) = ks"
    and pd: "pendingRevalidations (runCompletion s) = (pendingRevalidations s)(k' := None)"
    by (simp_all add: runCompletion_def)
  have len: "length (settled s) = Suc (length ks)" using Cons.hyps(2) [symmetric] by simp
  have "(runCompletion ^^ length (settled s)) s = (runCompletion ^^ length ks) (runCompletion s)"
    unfolding len by (simp add: funpow_swap1)
  also have "pendingRevalidations \<dots> k
      = (if k \<in> set (settled (runCompletion s)) then None
         else pendingRevalidations (runCompletion s) k)"
    using Cons.hyps(1) [of "runCompletion s"] st by simp
  finally show ?case using st pd Cons.hyps(2) [symmetric] by auto
qed

text \<open>
  C4, as the code has it. When the browser is offline, a call for a key that has no ticket
  starts no load, writes nothing and notifies nobody, and no revalidation is left waiting.
  The ticket is still registered: the call ends with the key in the map, next to the
  queued \<^verbatim>\<open>finally\<close> callback of the promise, which is already fulfilled; once the queued
  callbacks have run, the key is gone.
\<close>

theorem offline_revalidation:
  assumes "\<not> onLine E" and "pendingRevalidations s k = None"
  shows "loads (revalidateInBackground E route ctx k v e s) = loads s
     \<and> loaderCalls (revalidateInBackground E route ctx k v e s) = loaderCalls s
     \<and> suspended (revalidateInBackground E route ctx k v e s) = suspended s
     \<and> routes (revalidateInBackground E route ctx k v e s) = routes s
     \<and> notified (revalidateInBackground E route ctx k v e s) = notified s
     \<and> pendingRevalidations (revalidateInBackground E route ctx k v e s) k = Some (promises s)
     \<and> settled (revalidateInBackground E route ctx k v e s) = settled s @ [k]
     \<and> pendingRevalidations
          ((runCompletion ^^ length (settled (revalidateInBackground E route ctx k v e s)))
             (revalidateInBackground E route ctx k v e s)) k = None"
  unfolding completions_drain
  by (simp add: revalidate_offline [OF assms])

theorem offline_revalidation_witness:
  "\<not> onLine offlineEnv \<and> pendingRevalidations (start :: nat sw) ''/a'' = None
   \<and> loads (revalidateInBackground offlineEnv exampleRoute exampleCtx ''/a'' ''B'' None start) = []
   \<and> pendingRevalidations
        (revalidateInBackground offlineEnv exampleRoute exampleCtx ''/a'' ''B'' None start) ''/a''
       = Some 0
   \<and> pendingRevalidations
        (runCompletion
           (revalidateInBackground offlineEnv exampleRoute exampleCtx ''/a'' ''B'' None start))
        ''/a'' = None"
proof -
  have a: "\<not> onLine offlineEnv" by (simp add: offlineEnv_def)
  have b: "pendingRevalidations (start :: nat sw) ''/a'' = None" by (simp add: start_def)
  have c: "settled (revalidateInBackground offlineEnv exampleRoute exampleCtx ''/a'' ''B'' None
              (start :: nat sw)) = [''/a'']"
    unfolding revalidate_offline [OF a b] by (simp add: start_def)
  from offline_revalidation [OF a b, of exampleRoute exampleCtx "''B''" None]
  show ?thesis using a b unfolding c by (simp add: revalidate_offline [OF a b]) (simp add: start_def runCompletion_def)
qed

text \<open>
  The claim C4 as stated fails: offline, the call returns with the key in the map.
\<close>

theorem offline_ticket_registered:
  "pendingRevalidations
     (revalidateInBackground offlineEnv exampleRoute exampleCtx ''/a'' ''B'' None start) ''/a''
   \<noteq> None"
  by (simp add: revalidateInBackground_def offlineEnv_def start_def Let_def)

section \<open>What a settled revalidation writes and sends\<close>

lemma settles_changed:
  assumes "find (\<lambda>j. ticket j = t) (suspended s) = Some j"
    and "loaded j = Some (Inr d)"
    and "Some (generateETag (digest E) (stringify E d)) \<noteq> cachedEtag j"
  shows "routes (revalidationSettles E LoaderFirst Completes t s)
           = (routes s)(cacheKey j \<mapsto>
               \<lparr>url = cacheKey j, data = d, version = appliedVersion j, timestamp = clock E,
                 etag = Some (generateETag (digest E) (stringify E d))\<rparr>)"
    and "notified (revalidationSettles E LoaderFirst Completes t s)
           = notified s @ [(cacheKey j, d)]"
    and "routes (revalidationSettles E LoaderFirst Fails t s) = routes s"
    and "notified (revalidationSettles E LoaderFirst Fails t s) = notified s"
  using assms
  by (simp_all add: revalidationSettles_def Let_def runLoaderWithTimeout_def
      cacheRouteData_def notifyClientsOfUpdate_def)

lemma settles_unchanged:
  assumes "find (\<lambda>j. ticket j = t) (suspended s) = Some j"
    and "loaded j = Some (Inr d)"
    and "Some (generateETag (digest E) (stringify E d)) = cachedEtag j"
  shows "routes (revalidationSettles E LoaderFirst tx t s) = routes s"
    and "notified (revalidationSettles E LoaderFirst tx t s) = notified s"
  using assms
  by (simp_all add: revalidationSettles_def Let_def runLoaderWithTimeout_def)

lemma generateETag_nonempty: "generateETag dg d \<noteq> []"
  by (simp add: generateETag_def quoted_def split: option.splits)

lemma served_state:
  assumes "version row = ''B''"
  shows "served row =
     \<lparr>routes = [''/a'' \<mapsto> row], pendingRevalidations = [''/a'' \<mapsto> 0],
      suspended = [\<lparr>ticket = 0, cacheKey = ''/a'', appliedVersion = ''B'',
                    cachedEtag = etag row, loaded = Some (Inr 7)\<rparr>],
      settled = [], loads = [''/a''], loaderCalls = 1, notified = [], posted = [],
      promises = 1\<rparr>"
  using assms
  by (simp add: served_def renderWithCache_def getCachedRouteData_def exampleCtx_def start_def
      isVersionCompatible_def getAppVersion_def exampleEnv_def serveStale_def
      exampleRender_def revalidateInBackground_def startLoad_def load_def exampleRoute_def
      invoke_def Let_def)

text \<open>
  C5, as the code has it. A background refresh whose loader wins the race with a payload,
  and whose write (when it writes) completes: if the fresh ETag differs from the one the
  stale row had when it was served, the row is rewritten with the fresh payload, the
  version, the clock and the fresh ETag, and \<^verbatim>\<open>notifyClientsOfUpdate\<close> is called once with
  the key and the payload; if the ETags are equal, the store and the notifications are
  as they were.
\<close>

theorem refresh_writes_iff_changed:
  assumes "find (\<lambda>j. ticket j = t) (suspended s) = Some j"
    and "loaded j = Some (Inr d)"
  shows "if Some (generateETag (digest E) (stringify E d)) \<noteq> cachedEtag j
     then routes (revalidationSettles E LoaderFirst Completes t s)
            = (routes s)(cacheKey j \<mapsto>
                \<lparr>url = cacheKey j, data = d, version = appliedVersion j, timestamp = clock E,
                  etag = Some (generateETag (digest E) (stringify E d))\<rparr>)
          \<and> notified (revalidationSettles E LoaderFirst Completes t s)
              = notified s @ [(cacheKey j, d)]
     else routes (revalidationSettles E LoaderFirst Completes t s) = routes s
          \<and> notified (revalidationSettles E LoaderFirst Completes t s) = notified s"
  using settles_changed [OF assms] settles_unchanged [OF assms] by simp

theorem refresh_writes_iff_changed_witness:
  "find (\<lambda>j. ticket j = 0) (suspended (served rowOld))
     = Some \<lparr>ticket = 0, cacheKey = ''/a'', appliedVersion = ''B'', cachedEtag = Some ''old'',
             loaded = Some (Inr 7)\<rparr>
   \<and> routes (revalidationSettles exampleEnv LoaderFirst Completes 0 (served rowOld)) ''/a''
       = Some \<lparr>url = ''/a'', data = 7, version = ''B'', timestamp = 1000,
               etag = Some (generateETag None (utf16 (toStringRadix 10 7)))\<rparr>
   \<and> notified (revalidationSettles exampleEnv LoaderFirst Completes 0 (served rowOld))
       = [(''/a'', 7)]
   \<and> routes (revalidationSettles exampleEnv LoaderFirst Completes 0 (served rowSame)) ''/a''
       = Some rowSame
   \<and> notified (revalidationSettles exampleEnv LoaderFirst Completes 0 (served rowSame)) = []"
proof -
  let ?old = "\<lparr>ticket = 0, cacheKey = ''/a'', appliedVersion = ''B'',
               cachedEtag = Some ''old'', loaded = Some (Inr (7 :: nat))\<rparr>"
  let ?same = "\<lparr>ticket = 0, cacheKey = ''/a'', appliedVersion = ''B'',
                cachedEtag = etag rowSame, loaded = Some (Inr (7 :: nat))\<rparr>"
  have so: "served rowOld = \<lparr>routes = [''/a'' \<mapsto> rowOld], pendingRevalidations = [''/a'' \<mapsto> 0],
      suspended = [?old], settled = [], loads = [''/a''], loaderCalls = 1, notified = [],
      posted = [], promises = 1\<rparr>"
    using served_state [of rowOld] by (simp add: rowOld_def)
  have ss: "served rowSame = \<lparr>routes = [''/a'' \<mapsto> rowSame], pendingRevalidations = [''/a'' \<mapsto> 0],
      suspended = [?same], settled = [], loads = [''/a''], loaderCalls = 1, notified = [],
      posted = [], promises = 1\<rparr>"
    using served_state [of rowSame] by (simp add: rowSame_def)
  have fo: "find (\<lambda>j. ticket j = 0) (suspended (served rowOld)) = Some ?old"
    by (simp add: so)
  have fs: "find (\<lambda>j. ticket j = 0) (suspended (served rowSame)) = Some ?same"
    by (simp add: ss)
  have l: "loaded ?old = Some (Inr 7)" "loaded ?same = Some (Inr 7)" by simp_all
  have neq: "Some (generateETag (digest exampleEnv) (stringify exampleEnv 7)) \<noteq> cachedEtag ?old"
    by (simp add: generateETag_def quoted_def exampleEnv_def)
  have eq: "Some (generateETag (digest exampleEnv) (stringify exampleEnv 7)) = cachedEtag ?same"
    by (simp add: rowSame_def exampleEnv_def)
  have n: "notified (served rowOld) = []" "notified (served rowSame) = []"
    "routes (served rowOld) = [''/a'' \<mapsto> rowOld]" "routes (served rowSame) = [''/a'' \<mapsto> rowSame]"
    by (simp_all add: so ss)
  from refresh_writes_iff_changed [OF fo l(1), of exampleEnv]
       refresh_writes_iff_changed [OF fs l(2), of exampleEnv]
  show ?thesis
    using neq eq fo n
    by (simp add: exampleEnv_def)
qed

text \<open>
  The claim C5 as stated fails when the write fails: the loader succeeded and the ETag
  changed, yet the row is not rewritten and nobody is notified.
\<close>

theorem refresh_write_fails:
  "loaded (hd (suspended (served rowOld))) = Some (Inr 7)
   \<and> Some (generateETag (digest exampleEnv) (stringify exampleEnv 7))
        \<noteq> cachedEtag (hd (suspended (served rowOld)))
   \<and> routes (revalidationSettles exampleEnv LoaderFirst Fails 0 (served rowOld)) ''/a''
        = Some rowOld
   \<and> notified (revalidationSettles exampleEnv LoaderFirst Fails 0 (served rowOld)) = []"
proof -
  have so: "served rowOld = \<lparr>routes = [''/a'' \<mapsto> rowOld], pendingRevalidations = [''/a'' \<mapsto> 0],
      suspended = [\<lparr>ticket = 0, cacheKey = ''/a'', appliedVersion = ''B'',
               cachedEtag = Some ''old'', loaded = Some (Inr (7 :: nat))\<rparr>],
      settled = [], loads = [''/a''], loaderCalls = 1, notified = [],
      posted = [], promises = 1\<rparr>"
    using served_state [of rowOld] by (simp add: rowOld_def)
  show ?thesis
    unfolding so
    by (simp add: revalidationSettles_def Let_def runLoaderWithTimeout_def cacheRouteData_def
        generateETag_def quoted_def exampleEnv_def)
qed

text \<open>
  C10. A refresh started for a row that has no ETag, whose loader wins the race with a
  payload and whose write completes, rewrites the row and calls
  \<^verbatim>\<open>notifyClientsOfUpdate\<close> once, whatever the payload: the fresh ETag is a string, and it
  is not empty.
\<close>

theorem refresh_without_etag_always_writes:
  assumes "find (\<lambda>j. ticket j = t) (suspended s) = Some j"
    and "cachedEtag j = None"
    and "loaded j = Some (Inr d)"
  shows "routes (revalidationSettles E LoaderFirst Completes t s) (cacheKey j)
           = Some \<lparr>url = cacheKey j, data = d, version = appliedVersion j, timestamp = clock E,
                   etag = Some (generateETag (digest E) (stringify E d))\<rparr>
     \<and> notified (revalidationSettles E LoaderFirst Completes t s)
           = notified s @ [(cacheKey j, d)]
     \<and> generateETag (digest E) (stringify E d) \<noteq> []"
proof -
  have "Some (generateETag (digest E) (stringify E d)) \<noteq> cachedEtag j"
    using assms(2) by simp
  from settles_changed(1,2) [OF assms(1) assms(3) this] show ?thesis
    by (simp add: generateETag_nonempty)
qed

theorem refresh_without_etag_always_writes_witness:
  "find (\<lambda>j. ticket j = 0) (suspended (served rowB))
     = Some \<lparr>ticket = 0, cacheKey = ''/a'', appliedVersion = ''B'', cachedEtag = None,
             loaded = Some (Inr 7)\<rparr>
   \<and> data rowB = 7
   \<and> routes (revalidationSettles exampleEnv LoaderFirst Completes 0 (served rowB)) ''/a''
       = Some \<lparr>url = ''/a'', data = 7, version = ''B'', timestamp = 1000,
               etag = Some (generateETag None (utf16 (toStringRadix 10 7)))\<rparr>
   \<and> notified (revalidationSettles exampleEnv LoaderFirst Completes 0 (served rowB))
       = [(''/a'', 7)]"
proof -
  let ?j = "\<lparr>ticket = 0, cacheKey = ''/a'', appliedVersion = ''B'',
             cachedEtag = None, loaded = Some (Inr (7 :: nat))\<rparr>"
  have sb: "served rowB = \<lparr>routes = [''/a'' \<mapsto> rowB], pendingRevalidations = [''/a'' \<mapsto> 0],
      suspended = [?j], settled = [], loads = [''/a''], loaderCalls = 1, notified = [],
      posted = [], promises = 1\<rparr>"
    using served_state [of rowB] by (simp add: rowB_def)
  have f: "find (\<lambda>j. ticket j = 0) (suspended (served rowB)) = Some ?j"
    by (simp add: sb)
  have n: "notified (served rowB) = []" by (simp add: sb)
  have d: "data rowB = 7" by (simp add: rowB_def)
  from refresh_without_etag_always_writes [OF f, of 7 exampleEnv]
  show ?thesis
    using f n d by (simp add: exampleEnv_def)
qed

section \<open>The navigation controller\<close>
























































end
